theory Spec2Isabelle
  imports Main
begin

section \<open>JavaScript values\<close>

text \<open>
  The cache stores whatever the caller passes and uses whatever the caller passes as a key.
  Values matter to the code in two ways only: keys are compared (a \<open>Map\<close> compares with
  SameValueZero, under which \<open>NaN\<close> equals itself), and the \<open>get\<close> of the memory
  management guide tests the stored item for truthiness. Numbers are kept to the integers
  and \<open>NaN\<close>; objects are identified by their reference.
\<close>

datatype jsval =
    JUndefined
  | JNull
  | JBool bool
  | JNum int
  | JNaN
  | JStr string
  | JObj nat

text \<open>\<open>ToBoolean\<close>: what \<open>if (item)\<close> tests.\<close>

fun truthy :: "jsval \<Rightarrow> bool" where
  "truthy JUndefined = False"
| "truthy JNull = False"
| "truthy (JBool b) = b"
| "truthy (JNum n) = (n \<noteq> 0)"
| "truthy JNaN = False"
| "truthy (JStr s) = (s \<noteq> [])"
| "truthy (JObj r) = True"

section \<open>The built-in \<open>Map\<close>\<close>

text \<open>
  A JavaScript \<open>Map\<close> iterates in insertion order, so it is a list of key/value pairs,
  oldest insertion first. \<open>set\<close> on a key that is already there replaces the value where
  the key stands; on a new key it appends. \<open>get\<close> on a missing key is \<open>undefined\<close>.
\<close>

type_synonym jsmap = "(jsval \<times> jsval) list"

fun Map_has :: "jsmap \<Rightarrow> jsval \<Rightarrow> bool" where
  "Map_has [] k = False"
| "Map_has ((k', v) # m) k = (k' = k \<or> Map_has m k)"

fun Map_get :: "jsmap \<Rightarrow> jsval \<Rightarrow> jsval" where
  "Map_get [] k = JUndefined"
| "Map_get ((k', v) # m) k = (if k' = k then v else Map_get m k)"

fun Map_set :: "jsmap \<Rightarrow> jsval \<Rightarrow> jsval \<Rightarrow> jsmap" where
  "Map_set [] k v = [(k, v)]"
| "Map_set ((k', v') # m) k v = (if k' = k then (k, v) # m else (k', v') # Map_set m k v)"

fun Map_delete :: "jsmap \<Rightarrow> jsval \<Rightarrow> jsmap" where
  "Map_delete [] k = []"
| "Map_delete ((k', v) # m) k = (if k' = k then Map_delete m k else (k', v) # Map_delete m k)"

definition Map_size :: "jsmap \<Rightarrow> nat" where
  "Map_size m = length m"

text \<open>\<open>m.keys().next().value\<close>: the oldest key, \<open>undefined\<close> when the map is empty.\<close>

definition Map_first_key :: "jsmap \<Rightarrow> jsval" where
  "Map_first_key m = (case m of [] \<Rightarrow> JUndefined | (k, v) # r \<Rightarrow> k)"

text \<open>The keys of a \<open>Map\<close> are pairwise different.\<close>

definition Map_wf :: "jsmap \<Rightarrow> bool" where
  "Map_wf m = distinct (map fst m)"

section \<open>The class \<open>LRUCache\<close>\<close>

text \<open>
  The two fields of an instance. \<open>maxSize\<close> is whatever number the caller passed, here an
  integer of either sign (the repository passes 1000); \<open>cache\<close> is the \<open>Map\<close>.
\<close>

record LRUCache =
  maxSize :: int
  cache :: jsmap

text \<open>The constructor stores its argument and an empty \<open>Map\<close>. It has no \<open>throw\<close>.\<close>

definition LRUCache_new :: "int \<Rightarrow> LRUCache" where
  "LRUCache_new n = \<lparr>maxSize = n, cache = []\<rparr>"

datatype error = InvalidConfiguration | InvalidArgument

text \<open>
  The expression \<open>new LRUCache(n)\<close> as a computation that may fail: its only code is the
  constructor body, which has no failing branch.
\<close>

definition LRUCache_construct :: "int \<Rightarrow> error + LRUCache" where
  "LRUCache_construct n = Inr (LRUCache_new n)"

text \<open>
  \<open>get\<close> of \<open>benchmarks/caching-benchmarks.js\<close>: a missing key gives \<open>null\<close>; a key that
  is there is deleted and set again, which moves it to the end of the \<open>Map\<close>.
\<close>

definition LRUCache_get :: "LRUCache \<Rightarrow> jsval \<Rightarrow> jsval \<times> LRUCache" where
  "LRUCache_get c key =
     (if \<not> Map_has (cache c) key then (JNull, c)
      else
        let val = Map_get (cache c) key;
            m1 = Map_delete (cache c) key;
            m2 = Map_set m1 key val
        in (val, c\<lparr>cache := m2\<rparr>))"

text \<open>
  \<open>get\<close> of the memory management guide: the item is looked up, refreshed only when it
  is truthy, and returned as it is (\<open>undefined\<close> for a missing key).
\<close>

definition LRUCache_get_guide :: "LRUCache \<Rightarrow> jsval \<Rightarrow> jsval \<times> LRUCache" where
  "LRUCache_get_guide c key =
     (let item = Map_get (cache c) key
      in if truthy item
         then (item, c\<lparr>cache := Map_set (Map_delete (cache c) key) key item\<rparr>)
         else (item, c))"

text \<open>
  \<open>set\<close>, the same in both files: when the \<open>Map\<close> holds \<open>maxSize\<close> entries or more, its
  first key is deleted; then the pair is set.
\<close>

definition LRUCache_set :: "LRUCache \<Rightarrow> jsval \<Rightarrow> jsval \<Rightarrow> LRUCache" where
  "LRUCache_set c key val =
     (let m = cache c;
          m1 = (if maxSize c \<le> int (Map_size m) then Map_delete m (Map_first_key m) else m)
      in c\<lparr>cache := Map_set m1 key val\<rparr>)"

section \<open>Calls and call sequences\<close>

text \<open>
  A call site may pass more arguments than a method declares: JavaScript binds the
  declared parameters in order, \<open>undefined\<close> for a missing one, and drops the rest.
  \<open>set\<close> declares \<open>key\<close> and \<open>value\<close>.
\<close>

definition arg :: "jsval list \<Rightarrow> nat \<Rightarrow> jsval" where
  "arg args i = (if i < length args then args ! i else JUndefined)"

definition LRUCache_set_call :: "LRUCache \<Rightarrow> jsval list \<Rightarrow> LRUCache" where
  "LRUCache_set_call c args = LRUCache_set c (arg args 0) (arg args 1)"

text \<open>
  The running program: the wall clock and the cache instance. The clock moves between
  calls; the methods of \<open>LRUCache\<close> read and write the instance only.
\<close>

record process =
  now :: int
  lru :: LRUCache

definition advance :: "process \<Rightarrow> int \<Rightarrow> process" where
  "advance p d = p\<lparr>now := now p + d\<rparr>"

definition process_set :: "process \<Rightarrow> jsval list \<Rightarrow> process" where
  "process_set p args = p\<lparr>lru := LRUCache_set_call (lru p) args\<rparr>"

definition process_get :: "process \<Rightarrow> jsval \<Rightarrow> jsval \<times> process" where
  "process_get p k = (fst (LRUCache_get (lru p) k), p\<lparr>lru := snd (LRUCache_get (lru p) k)\<rparr>)"

definition process_get_guide :: "process \<Rightarrow> jsval \<Rightarrow> jsval \<times> process" where
  "process_get_guide p k =
     (fst (LRUCache_get_guide (lru p) k), p\<lparr>lru := snd (LRUCache_get_guide (lru p) k)\<rparr>)"

text \<open>A sequence of \<open>set\<close> calls, one per pair, in order.\<close>

fun set_all :: "LRUCache \<Rightarrow> (jsval \<times> jsval) list \<Rightarrow> LRUCache" where
  "set_all c [] = c"
| "set_all c ((k, v) # kvs) = set_all (LRUCache_set c k v) kvs"

text \<open>A history of calls on one instance, and the instance it leaves.\<close>

datatype call = Set jsval jsval | Get jsval

fun step :: "LRUCache \<Rightarrow> call \<Rightarrow> LRUCache" where
  "step c (Set k v) = LRUCache_set c k v"
| "step c (Get k) = snd (LRUCache_get c k)"

fun step_guide :: "LRUCache \<Rightarrow> call \<Rightarrow> LRUCache" where
  "step_guide c (Set k v) = LRUCache_set c k v"
| "step_guide c (Get k) = snd (LRUCache_get_guide c k)"

fun run :: "LRUCache \<Rightarrow> call list \<Rightarrow> LRUCache" where
  "run c [] = c"
| "run c (x # xs) = run (step c x) xs"

fun run_guide :: "LRUCache \<Rightarrow> call list \<Rightarrow> LRUCache" where
  "run_guide c [] = c"
| "run_guide c (x # xs) = run_guide (step_guide c x) xs"

text \<open>
  The value passed to the most recent \<open>set\<close> for a key in a history, as the round-trip
  property words it; \<open>None\<close> when the history has no \<open>set\<close> for the key.
\<close>

fun last_set :: "call list \<Rightarrow> jsval \<Rightarrow> jsval option" where
  "last_set [] k = None"
| "last_set (Set k' v # xs) k =
     (case last_set xs k of Some w \<Rightarrow> Some w | None \<Rightarrow> if k' = k then Some v else None)"
| "last_set (Get k' # xs) k = last_set xs k"

text \<open>
  A history and an instance agree when every key of the instance holds the value of the
  most recent \<open>set\<close> for it in the history.
\<close>

definition agrees :: "call list \<Rightarrow> LRUCache \<Rightarrow> bool" where
  "agrees h c = (\<forall>k \<in> set (map fst (cache c)). last_set h k = Some (Map_get (cache c) k))"

section \<open>The bounded cache of the specification\<close>

text \<open>
  The cache as section 4.1 of the specification words it, for entries without a time to
  live: the entries in recency order, least recently used first. A \<open>set\<close> of a key that
  exists replaces the value and moves the key to the most recently used end, with no
  eviction; a new key is inserted at that end, after the least recently used entry has
  been evicted when the cache is full. A \<open>get\<close> of a present key moves it to that end and
  returns its value; a miss returns nothing and changes nothing. The code is compared
  with these definitions; they are not taken from it.
\<close>

definition spec_set :: "int \<Rightarrow> jsmap \<Rightarrow> jsval \<Rightarrow> jsval \<Rightarrow> jsmap" where
  "spec_set cap es k v =
     (if Map_has es k then Map_delete es k @ [(k, v)]
      else if int (length es) < cap then es @ [(k, v)]
      else drop 1 es @ [(k, v)])"

definition spec_get :: "jsmap \<Rightarrow> jsval \<Rightarrow> jsval option \<times> jsmap" where
  "spec_get es k =
     (if Map_has es k then (Some (Map_get es k), Map_delete es k @ [(k, Map_get es k)])
      else (None, es))"



section \<open>Facts about the \<open>Map\<close> operations\<close>

lemma Map_has_iff: "Map_has m k \<longleftrightarrow> k \<in> fst ` set m"
  by (induction m) auto

lemma Map_has_set: "Map_has (Map_set m k v) k' \<longleftrightarrow> k' = k \<or> Map_has m k'"
  by (induction m) (auto split: if_splits)

lemma Map_get_set: "Map_get (Map_set m k v) k' = (if k' = k then v else Map_get m k')"
  by (induction m) auto

lemma Map_get_absent: "\<not> Map_has m k \<Longrightarrow> Map_get m k = JUndefined"
  by (induction m) (auto split: if_splits)

lemma Map_has_delete: "Map_has (Map_delete m k) k' \<longleftrightarrow> k' \<noteq> k \<and> Map_has m k'"
  by (induction m) (auto split: if_splits)

lemma Map_get_delete: "k' \<noteq> k \<Longrightarrow> Map_get (Map_delete m k) k' = Map_get m k'"
  by (induction m) auto

lemma Map_delete_absent: "\<not> Map_has m k \<Longrightarrow> Map_delete m k = m"
  by (induction m) (auto split: if_splits)

lemma length_Map_delete: "length (Map_delete m k) \<le> length m"
  by (induction m) auto

lemma length_Map_delete_has: "Map_has m k \<Longrightarrow> length (Map_delete m k) < length m"
  by (induction m) (auto split: if_splits simp: less_Suc_eq_le length_Map_delete)

lemma length_Map_set:
  "length (Map_set m k v) = (if Map_has m k then length m else Suc (length m))"
  by (induction m) auto

lemma Map_first_key_has: "m \<noteq> [] \<Longrightarrow> Map_has m (Map_first_key m)"
  by (cases m) (auto simp: Map_first_key_def)

lemma Map_set_last: "\<not> Map_has m k \<Longrightarrow> Map_set m k v = m @ [(k, v)]"
  by (induction m) (auto split: if_splits)

lemma Map_wf_delete: "Map_wf m \<Longrightarrow> Map_wf (Map_delete m k)"
  by (induction m) (auto simp: Map_wf_def Map_has_iff [symmetric] Map_has_delete)

lemma Map_wf_set: "Map_wf m \<Longrightarrow> Map_wf (Map_set m k v)"
  by (induction m) (auto simp: Map_wf_def Map_has_iff [symmetric] Map_has_set)

lemma truthy_has: "truthy (Map_get m k) \<Longrightarrow> Map_has m k"
  by (cases "Map_has m k") (simp_all add: Map_get_absent)

lemma Map_has_refresh:
  "Map_has m k \<Longrightarrow> Map_has (Map_set (Map_delete m k) k v) k' \<longleftrightarrow> Map_has m k'"
  by (auto simp: Map_has_set Map_has_delete)

lemma Map_get_refresh: "Map_get (Map_set (Map_delete m k) k (Map_get m k)) k' = Map_get m k'"
  by (simp add: Map_get_set Map_get_delete)

lemma Map_refresh_last: "Map_set (Map_delete m k) k v = Map_delete m k @ [(k, v)]"
  by (simp add: Map_set_last Map_has_delete)

section \<open>Facts about the methods\<close>

lemmas cache_defs = LRUCache_new_def LRUCache_set_def LRUCache_get_def LRUCache_get_guide_def
  Map_size_def Map_first_key_def Let_def

lemma LRUCache_set_maxSize: "maxSize (LRUCache_set c k v) = maxSize c"
  by (simp add: LRUCache_set_def Let_def)

lemma LRUCache_set_has: "Map_has (cache (LRUCache_set c k v)) k"
  by (simp add: LRUCache_set_def Let_def Map_has_set)

lemma LRUCache_set_get: "Map_get (cache (LRUCache_set c k v)) k = v"
  by (simp add: LRUCache_set_def Let_def Map_get_set)

text \<open>
  A \<open>set\<close> removes at most the first key of the \<open>Map\<close>, and only when the \<open>Map\<close> holds
  \<open>maxSize\<close> entries or more; every other entry stays, with its value.
\<close>

lemma set_keeps_other_entries:
  assumes "Map_has (cache c) k'"
    and "\<not> (maxSize c \<le> int (Map_size (cache c)) \<and> k' = Map_first_key (cache c))"
  shows "Map_has (cache (LRUCache_set c k v)) k'
    \<and> (k' \<noteq> k \<longrightarrow> Map_get (cache (LRUCache_set c k v)) k' = Map_get (cache c) k')"
  using assms
  by (auto simp: LRUCache_set_def Let_def Map_has_set Map_has_delete Map_get_set Map_get_delete)

lemma LRUCache_get_result:
  "Map_has (cache c) k \<Longrightarrow> fst (LRUCache_get c k) = Map_get (cache c) k"
  by (simp add: LRUCache_get_def Let_def)

lemma LRUCache_get_guide_result: "fst (LRUCache_get_guide c k) = Map_get (cache c) k"
  by (simp add: LRUCache_get_guide_def Let_def)

lemma LRUCache_get_has:
  "Map_has (cache (snd (LRUCache_get c k))) k' \<longleftrightarrow> Map_has (cache c) k'"
  by (simp add: LRUCache_get_def Let_def Map_has_refresh)

lemma LRUCache_get_get: "Map_get (cache (snd (LRUCache_get c k))) k' = Map_get (cache c) k'"
  by (simp add: LRUCache_get_def Let_def Map_get_refresh)

lemma LRUCache_get_guide_has:
  "Map_has (cache (snd (LRUCache_get_guide c k))) k' \<longleftrightarrow> Map_has (cache c) k'"
  by (simp add: LRUCache_get_guide_def Let_def Map_has_refresh truthy_has)

lemma LRUCache_get_guide_get:
  "Map_get (cache (snd (LRUCache_get_guide c k))) k' = Map_get (cache c) k'"
  by (simp add: LRUCache_get_guide_def Let_def Map_get_refresh)

text \<open>The representation invariant of the \<open>Map\<close> is kept by every method.\<close>

lemma LRUCache_set_wf: "Map_wf (cache c) \<Longrightarrow> Map_wf (cache (LRUCache_set c k v))"
  by (simp add: LRUCache_set_def Let_def Map_wf_set Map_wf_delete)

lemma LRUCache_get_wf: "Map_wf (cache c) \<Longrightarrow> Map_wf (cache (snd (LRUCache_get c k)))"
  by (simp add: LRUCache_get_def Let_def Map_wf_set Map_wf_delete)

lemma LRUCache_get_guide_wf:
  "Map_wf (cache c) \<Longrightarrow> Map_wf (cache (snd (LRUCache_get_guide c k)))"
  by (simp add: LRUCache_get_guide_def Let_def Map_wf_set Map_wf_delete)

section \<open>Capacity\<close>

lemma LRUCache_set_size:
  assumes "0 < maxSize c" and "int (Map_size (cache c)) \<le> maxSize c"
  shows "int (Map_size (cache (LRUCache_set c k v))) \<le> maxSize c"
proof (cases "maxSize c \<le> int (Map_size (cache c))")
  case True
  with assms have ne: "cache c \<noteq> []" by (auto simp: Map_size_def)
  have "length (Map_delete (cache c) (Map_first_key (cache c))) < length (cache c)"
    using ne by (simp add: length_Map_delete_has Map_first_key_has)
  moreover have "length (Map_set (Map_delete (cache c) (Map_first_key (cache c))) k v)
      \<le> Suc (length (Map_delete (cache c) (Map_first_key (cache c))))"
    by (simp add: length_Map_set)
  ultimately show ?thesis
    using True assms by (simp add: LRUCache_set_def Let_def Map_size_def)
next
  case False
  moreover have "length (Map_set (cache c) k v) \<le> Suc (length (cache c))"
    by (simp add: length_Map_set)
  ultimately show ?thesis
    by (simp add: LRUCache_set_def Let_def Map_size_def)
qed

lemma set_all_size:
  "0 < maxSize c \<Longrightarrow> int (Map_size (cache c)) \<le> maxSize c \<Longrightarrow>
   int (Map_size (cache (set_all c kvs))) \<le> maxSize c"
proof (induction kvs arbitrary: c)
  case Nil
  then show ?case by simp
next
  case (Cons p kvs)
  obtain k v where p: "p = (k, v)" by (cases p)
  have "int (Map_size (cache (set_all (LRUCache_set c k v) kvs))) \<le> maxSize (LRUCache_set c k v)"
    using Cons.prems by (intro Cons.IH) (simp_all add: LRUCache_set_maxSize LRUCache_set_size)
  then show ?case by (simp add: p LRUCache_set_maxSize)
qed

text \<open>
  C1. For every capacity \<open>n > 0\<close> and every sequence of \<open>set\<close> calls on a cache
  constructed with it, the cache holds at most \<open>n\<close> entries after each call: \<open>take i kvs\<close>
  is the sequence up to its \<open>i\<close>-th call. The keys may be distinct or not.
\<close>

theorem capacity_invariant:
  "0 < n \<Longrightarrow> int (Map_size (cache (set_all (LRUCache_new n) (take i kvs)))) \<le> n"
  using set_all_size [of "LRUCache_new n" "take i kvs"]
  by (simp add: LRUCache_new_def Map_size_def)

theorem capacity_invariant_witness:
  "(0::int) < 2 \<and>
   int (Map_size (cache (set_all (LRUCache_new 2)
      (take 3 [(JStr ''a'', JNum 1), (JStr ''b'', JNum 2), (JStr ''c'', JNum 3)])))) \<le> 2"
  using capacity_invariant
    [of 2 3 "[(JStr ''a'', JNum 1), (JStr ''b'', JNum 2), (JStr ''c'', JNum 3)]"]
  by simp

section \<open>Eviction order\<close>

text \<open>
  C2. On a cache of capacity 2 and for pairwise different keys \<open>a\<close>, \<open>b\<close>, \<open>c\<close>, the calls
  \<open>set(a,1)\<close>, \<open>set(b,2)\<close>, \<open>get(a)\<close>, \<open>set(c,3)\<close> evict exactly \<open>b\<close>: \<open>get(a)\<close> returns 1, and
  the cache is left with \<open>a\<close> holding 1 and \<open>c\<close> holding 3, in this order, and without \<open>b\<close>.
  Both versions of \<open>get\<close> behave so.
\<close>

theorem lru_eviction_order:
  assumes "a \<noteq> b" and "a \<noteq> c" and "b \<noteq> c"
  shows "fst (LRUCache_get (set_all (LRUCache_new 2) [(a, JNum 1), (b, JNum 2)]) a) = JNum 1
    \<and> cache (LRUCache_set
         (snd (LRUCache_get (set_all (LRUCache_new 2) [(a, JNum 1), (b, JNum 2)]) a))
         c (JNum 3)) = [(a, JNum 1), (c, JNum 3)]
    \<and> fst (LRUCache_get_guide (set_all (LRUCache_new 2) [(a, JNum 1), (b, JNum 2)]) a) = JNum 1
    \<and> cache (LRUCache_set
         (snd (LRUCache_get_guide (set_all (LRUCache_new 2) [(a, JNum 1), (b, JNum 2)]) a))
         c (JNum 3)) = [(a, JNum 1), (c, JNum 3)]
    \<and> Map_has [(a, JNum 1), (c, JNum 3)] a \<and> Map_get [(a, JNum 1), (c, JNum 3)] a = JNum 1
    \<and> Map_has [(a, JNum 1), (c, JNum 3)] c \<and> Map_get [(a, JNum 1), (c, JNum 3)] c = JNum 3
    \<and> \<not> Map_has [(a, JNum 1), (c, JNum 3)] b"
  using assms by (simp add: cache_defs)

theorem lru_eviction_order_witness:
  "JStr ''a'' \<noteq> JStr ''b'' \<and> JStr ''a'' \<noteq> JStr ''c'' \<and> JStr ''b'' \<noteq> JStr ''c''
   \<and> cache (LRUCache_set
        (snd (LRUCache_get
           (set_all (LRUCache_new 2) [(JStr ''a'', JNum 1), (JStr ''b'', JNum 2)]) (JStr ''a'')))
        (JStr ''c'') (JNum 3)) = [(JStr ''a'', JNum 1), (JStr ''c'', JNum 3)]
   \<and> \<not> Map_has [(JStr ''a'', JNum 1), (JStr ''c'', JNum 3)] (JStr ''b'')"
  using lru_eviction_order [of "JStr ''a''" "JStr ''b''" "JStr ''c''"]
  by simp

text \<open>
  C7. On a cache of capacity 1 and for different keys \<open>a\<close> and \<open>b\<close>, \<open>set(a,1)\<close> followed by
  \<open>set(b,2)\<close> evicts \<open>a\<close>, the key inserted first: the cache holds \<open>b\<close> alone, \<open>get(a)\<close>
  returns the absent value and changes nothing, and \<open>get(b)\<close> returns 2.
\<close>

theorem fifo_tie_break:
  assumes "a \<noteq> b"
  shows "cache (set_all (LRUCache_new 1) [(a, JNum 1), (b, JNum 2)]) = [(b, JNum 2)]
    \<and> LRUCache_get (set_all (LRUCache_new 1) [(a, JNum 1), (b, JNum 2)]) a
        = (JNull, set_all (LRUCache_new 1) [(a, JNum 1), (b, JNum 2)])
    \<and> fst (LRUCache_get (set_all (LRUCache_new 1) [(a, JNum 1), (b, JNum 2)]) b) = JNum 2
    \<and> LRUCache_get_guide (set_all (LRUCache_new 1) [(a, JNum 1), (b, JNum 2)]) a
        = (JUndefined, set_all (LRUCache_new 1) [(a, JNum 1), (b, JNum 2)])
    \<and> fst (LRUCache_get_guide (set_all (LRUCache_new 1) [(a, JNum 1), (b, JNum 2)]) b) = JNum 2"
  using assms by (simp add: cache_defs)

theorem fifo_tie_break_witness:
  "JStr ''a'' \<noteq> JStr ''b''
   \<and> cache (set_all (LRUCache_new 1) [(JStr ''a'', JNum 1), (JStr ''b'', JNum 2)])
       = [(JStr ''b'', JNum 2)]
   \<and> fst (LRUCache_get
        (set_all (LRUCache_new 1) [(JStr ''a'', JNum 1), (JStr ''b'', JNum 2)]) (JStr ''a''))
       = JNull
   \<and> fst (LRUCache_get
        (set_all (LRUCache_new 1) [(JStr ''a'', JNum 1), (JStr ''b'', JNum 2)]) (JStr ''b''))
       = JNum 2"
  using fifo_tie_break [of "JStr ''a''" "JStr ''b''"]
  by simp

section \<open>Construction\<close>

text \<open>
  C6, as the specification states it, fails: constructing a cache with capacity 0 does not
  fail with \<open>InvalidConfiguration\<close>; it succeeds.
\<close>

theorem construct_zero_succeeds:
  "LRUCache_construct 0 \<noteq> Inl InvalidConfiguration \<and> \<not> isl (LRUCache_construct 0)"
  by (simp add: LRUCache_construct_def)

text \<open>
  A cache constructed with a capacity that is not positive is usable all the same, and
  holds one entry after a \<open>set\<close>: the bound of the capacity invariant needs \<open>n > 0\<close>.
\<close>

lemma nonpositive_capacity_holds_one:
  "n \<le> 0 \<Longrightarrow> cache (LRUCache_set (LRUCache_new n) k v) = [(k, v)]"
  by (simp add: cache_defs)

text \<open>
  C6, amended. Construction never fails: for every capacity, positive or not, it yields
  an empty cache whose \<open>maxSize\<close> is the capacity passed.
\<close>

theorem construct_always_succeeds:
  "LRUCache_construct n = Inr \<lparr>maxSize = n, cache = []\<rparr>"
  by (simp add: LRUCache_construct_def LRUCache_new_def)

section \<open>A miss changes nothing\<close>

text \<open>
  C9. For every cache state and every key that is not in the cache, \<open>get\<close> returns the
  absent value (\<open>null\<close> in the benchmark, \<open>undefined\<close> in the guide) and returns the cache
  as it was, entries and order; on a freshly constructed cache this holds for every key.
\<close>

theorem get_miss_no_effect:
  "(\<not> Map_has (cache c) k \<longrightarrow>
      LRUCache_get c k = (JNull, c) \<and> LRUCache_get_guide c k = (JUndefined, c))
   \<and> LRUCache_get (LRUCache_new n) k = (JNull, LRUCache_new n)
   \<and> LRUCache_get_guide (LRUCache_new n) k = (JUndefined, LRUCache_new n)"
  by (simp add: LRUCache_get_def LRUCache_get_guide_def LRUCache_new_def Map_get_absent)

theorem get_miss_no_effect_witness:
  "\<not> Map_has (cache \<lparr>maxSize = 2, cache = [(JStr ''a'', JNum 1)]\<rparr>) (JStr ''b'')
   \<and> LRUCache_get \<lparr>maxSize = 2, cache = [(JStr ''a'', JNum 1)]\<rparr> (JStr ''b'')
       = (JNull, \<lparr>maxSize = 2, cache = [(JStr ''a'', JNum 1)]\<rparr>)
   \<and> LRUCache_get_guide \<lparr>maxSize = 2, cache = [(JStr ''a'', JNum 1)]\<rparr> (JStr ''b'')
       = (JUndefined, \<lparr>maxSize = 2, cache = [(JStr ''a'', JNum 1)]\<rparr>)"
  using get_miss_no_effect [of "\<lparr>maxSize = 2, cache = [(JStr ''a'', JNum 1)]\<rparr>" "JStr ''b''"]
  by simp

section \<open>Writing a key that is already there\<close>

lemma Map_set_present_keys: "Map_has m k \<Longrightarrow> map fst (Map_set m k v) = map fst m"
  by (induction m) auto

text \<open>
  Below capacity a \<open>set\<close> of a present key replaces the value where the key stands: the
  keys and their order stay, so does the size, and \<open>get\<close> returns the new value.
\<close>

lemma overwrite_below_capacity:
  assumes "Map_has (cache c) k" and "int (Map_size (cache c)) < maxSize c"
  shows "Map_size (cache (LRUCache_set c k v)) = Map_size (cache c)
    \<and> map fst (cache (LRUCache_set c k v)) = map fst (cache c)
    \<and> fst (LRUCache_get (LRUCache_set c k v) k) = v
    \<and> fst (LRUCache_get_guide (LRUCache_set c k v) k) = v"
proof -
  have "cache (LRUCache_set c k v) = Map_set (cache c) k v"
    using assms(2) by (simp add: LRUCache_set_def Let_def)
  then have "Map_size (cache (LRUCache_set c k v)) = Map_size (cache c)"
    and "map fst (cache (LRUCache_set c k v)) = map fst (cache c)"
    using assms(1) by (simp_all add: Map_size_def length_Map_set Map_set_present_keys)
  moreover have "fst (LRUCache_get (LRUCache_set c k v) k) = v"
    by (simp add: LRUCache_get_result LRUCache_set_has LRUCache_set_get)
  moreover have "fst (LRUCache_get_guide (LRUCache_set c k v) k) = v"
    by (simp add: LRUCache_get_guide_result LRUCache_set_get)
  ultimately show ?thesis by simp
qed

text \<open>
  C3 asks that \<open>set\<close> of a present key evicts nothing and keeps the size, also at full
  capacity. The code tests the size before it looks at the key: on the full cache
  \<open>a \<mapsto> 1, b \<mapsto> 2\<close> of capacity 2, \<open>set(b,5)\<close> deletes \<open>a\<close> and leaves one entry.
\<close>

theorem overwrite_at_capacity_evicts:
  "cache (set_all (LRUCache_new 2) [(JStr ''a'', JNum 1), (JStr ''b'', JNum 2)])
     = [(JStr ''a'', JNum 1), (JStr ''b'', JNum 2)]
   \<and> cache (LRUCache_set
        (set_all (LRUCache_new 2) [(JStr ''a'', JNum 1), (JStr ''b'', JNum 2)])
        (JStr ''b'') (JNum 5)) = [(JStr ''b'', JNum 5)]
   \<and> Map_size (cache (LRUCache_set
        (set_all (LRUCache_new 2) [(JStr ''a'', JNum 1), (JStr ''b'', JNum 2)])
        (JStr ''b'') (JNum 5))) = 1
   \<and> \<not> Map_has (cache (LRUCache_set
        (set_all (LRUCache_new 2) [(JStr ''a'', JNum 1), (JStr ''b'', JNum 2)])
        (JStr ''b'') (JNum 5))) (JStr ''a'')"
  by (simp add: cache_defs)

section \<open>Recency\<close>

text \<open>
  A hit of the benchmark's \<open>get\<close>, a hit of the guide's \<open>get\<close> on a truthy item, and a
  \<open>set\<close> of a new key put the key at the end of the \<open>Map\<close>.
\<close>

lemma get_moves_key_to_end:
  "Map_has (cache c) k \<Longrightarrow>
   cache (snd (LRUCache_get c k)) = Map_delete (cache c) k @ [(k, Map_get (cache c) k)]"
  by (simp add: LRUCache_get_def Let_def Map_refresh_last)

lemma get_guide_moves_key_to_end:
  "truthy (Map_get (cache c) k) \<Longrightarrow>
   cache (snd (LRUCache_get_guide c k)) = Map_delete (cache c) k @ [(k, Map_get (cache c) k)]"
  by (simp add: LRUCache_get_guide_def Let_def Map_refresh_last)

lemma set_new_key_at_end:
  "\<not> Map_has (cache c) k \<Longrightarrow> last (cache (LRUCache_set c k v)) = (k, v)"
  by (simp add: LRUCache_set_def Let_def Map_set_last Map_has_delete)

text \<open>
  C4 asks that every \<open>set\<close>, also of a key that is there, and every \<open>get\<close> of a present
  key, whatever its value, moves the key to the most recently used end. In the code a
  \<open>set\<close> of a present key leaves it where it stands: on capacity 3, after \<open>set(a,1)\<close>,
  \<open>set(b,2)\<close>, \<open>set(a,5)\<close> the last key is \<open>b\<close>, and two more insertions evict \<open>a\<close>, the
  key written last of the two, and keep \<open>b\<close>. The guide's \<open>get\<close> does not move a key
  whose value is falsy: \<open>get(a)\<close> on \<open>a \<mapsto> 0, b \<mapsto> 2\<close> returns 0 and leaves \<open>a\<close> first.
\<close>

theorem set_existing_key_keeps_position:
  "cache (LRUCache_set
      (set_all (LRUCache_new 3) [(JStr ''a'', JNum 1), (JStr ''b'', JNum 2)])
      (JStr ''a'') (JNum 5)) = [(JStr ''a'', JNum 5), (JStr ''b'', JNum 2)]
   \<and> fst (last (cache (LRUCache_set
      (set_all (LRUCache_new 3) [(JStr ''a'', JNum 1), (JStr ''b'', JNum 2)])
      (JStr ''a'') (JNum 5)))) = JStr ''b''
   \<and> cache (set_all (LRUCache_new 3)
        [(JStr ''a'', JNum 1), (JStr ''b'', JNum 2), (JStr ''a'', JNum 5),
         (JStr ''c'', JNum 3), (JStr ''d'', JNum 4)])
       = [(JStr ''b'', JNum 2), (JStr ''c'', JNum 3), (JStr ''d'', JNum 4)]
   \<and> LRUCache_get_guide
        (set_all (LRUCache_new 3) [(JStr ''a'', JNum 0), (JStr ''b'', JNum 2)]) (JStr ''a'')
       = (JNum 0, \<lparr>maxSize = 3, cache = [(JStr ''a'', JNum 0), (JStr ''b'', JNum 2)]\<rparr>)"
  by (simp add: cache_defs)

section \<open>Time\<close>

text \<open>
  C5, as the specification states it, fails: after \<open>set(k, 7, 1)\<close> at time 0 and 5 time
  units, \<open>get(k)\<close> returns 7, not the absent value, and \<open>k\<close> is still in the cache.
\<close>

theorem entry_outlives_ttl:
  "fst (process_get
     (advance (process_set \<lparr>now = 0, lru = LRUCache_new 2\<rparr> [JStr ''k'', JNum 7, JNum 1]) 5)
     (JStr ''k'')) = JNum 7
   \<and> Map_has (cache (lru (snd (process_get
     (advance (process_set \<lparr>now = 0, lru = LRUCache_new 2\<rparr> [JStr ''k'', JNum 7, JNum 1]) 5)
     (JStr ''k''))))) (JStr ''k'')"
  by (simp add: process_get_def advance_def process_set_def LRUCache_set_call_def arg_def
      cache_defs)

text \<open>
  C5, amended. The cache has no time to live. \<open>set\<close> drops a third argument and stores
  no time: for every state, key, value, third argument and lapse of time, the \<open>get\<close> that
  follows the \<open>set\<close> returns the value stored and leaves the key in the cache. A lapse of
  time changes neither the cache nor the result or effect of the next \<open>get\<close> or \<open>set\<close>. A
  \<open>get\<close> removes no entry and changes no stored value. Entries leave the cache by capacity
  eviction only: a key that a \<open>set\<close> removes is the first key of a \<open>Map\<close> that held
  \<open>maxSize\<close> entries or more, and every other key that stays keeps its value.
\<close>

theorem entries_never_expire:
  "fst (process_get (advance (process_set p [k, v, ttl]) d) k) = v
   \<and> Map_has (cache (lru (snd (process_get (advance (process_set p [k, v, ttl]) d) k)))) k
   \<and> fst (process_get_guide (advance (process_set p [k, v, ttl]) d) k) = v
   \<and> Map_has (cache (lru (snd (process_get_guide (advance (process_set p [k, v, ttl]) d) k)))) k
   \<and> lru (advance p d) = lru p
   \<and> fst (process_get (advance p d) j) = fst (process_get p j)
   \<and> lru (snd (process_get (advance p d) j)) = lru (snd (process_get p j))
   \<and> fst (process_get_guide (advance p d) j) = fst (process_get_guide p j)
   \<and> lru (snd (process_get_guide (advance p d) j)) = lru (snd (process_get_guide p j))
   \<and> lru (process_set (advance p d) args) = lru (process_set p args)
   \<and> (Map_has (cache (lru (snd (process_get p j)))) k' \<longleftrightarrow> Map_has (cache (lru p)) k')
   \<and> Map_get (cache (lru (snd (process_get p j)))) k' = Map_get (cache (lru p)) k'
   \<and> (Map_has (cache (lru (snd (process_get_guide p j)))) k' \<longleftrightarrow> Map_has (cache (lru p)) k')
   \<and> Map_get (cache (lru (snd (process_get_guide p j)))) k' = Map_get (cache (lru p)) k'
   \<and> (Map_has (cache (lru p)) k' \<and> \<not> Map_has (cache (lru (process_set p [j, w, ttl]))) k'
        \<longrightarrow> maxSize (lru p) \<le> int (Map_size (cache (lru p)))
            \<and> k' = Map_first_key (cache (lru p)))
   \<and> (Map_has (cache (lru p)) i \<and> Map_has (cache (lru (process_set p [j, w, ttl]))) i \<and> i \<noteq> j
        \<longrightarrow> Map_get (cache (lru (process_set p [j, w, ttl]))) i = Map_get (cache (lru p)) i)"
proof -
  have a: "fst (process_get (advance (process_set p [k, v, ttl]) d) k) = v
     \<and> Map_has (cache (lru (snd (process_get (advance (process_set p [k, v, ttl]) d) k)))) k
     \<and> fst (process_get_guide (advance (process_set p [k, v, ttl]) d) k) = v
     \<and> Map_has (cache (lru (snd (process_get_guide (advance (process_set p [k, v, ttl]) d) k)))) k"
    by (simp add: process_get_def process_get_guide_def advance_def process_set_def
      LRUCache_set_call_def arg_def LRUCache_get_result LRUCache_get_guide_result
      LRUCache_set_has LRUCache_set_get LRUCache_get_has LRUCache_get_guide_has)
  have b: "lru (advance p d) = lru p
     \<and> fst (process_get (advance p d) j) = fst (process_get p j)
     \<and> lru (snd (process_get (advance p d) j)) = lru (snd (process_get p j))
     \<and> fst (process_get_guide (advance p d) j) = fst (process_get_guide p j)
     \<and> lru (snd (process_get_guide (advance p d) j)) = lru (snd (process_get_guide p j))
     \<and> lru (process_set (advance p d) args) = lru (process_set p args)"
    by (simp add: process_get_def process_get_guide_def advance_def process_set_def)
  have c: "(Map_has (cache (lru (snd (process_get p j)))) k' \<longleftrightarrow> Map_has (cache (lru p)) k')
     \<and> Map_get (cache (lru (snd (process_get p j)))) k' = Map_get (cache (lru p)) k'
     \<and> (Map_has (cache (lru (snd (process_get_guide p j)))) k' \<longleftrightarrow> Map_has (cache (lru p)) k')
     \<and> Map_get (cache (lru (snd (process_get_guide p j)))) k' = Map_get (cache (lru p)) k'"
    by (simp add: process_get_def process_get_guide_def LRUCache_get_has LRUCache_get_get
        LRUCache_get_guide_has LRUCache_get_guide_get)
  have s: "lru (process_set p [j, w, ttl]) = LRUCache_set (lru p) j w"
    by (simp add: process_set_def LRUCache_set_call_def arg_def)
  have e: "Map_has (cache (lru p)) k' \<and> \<not> Map_has (cache (lru (process_set p [j, w, ttl]))) k'
        \<longrightarrow> maxSize (lru p) \<le> int (Map_size (cache (lru p)))
            \<and> k' = Map_first_key (cache (lru p))"
    unfolding s using set_keeps_other_entries [of "lru p" k' j w] by blast
  have f: "Map_has (cache (lru p)) i \<and> Map_has (cache (lru (process_set p [j, w, ttl]))) i \<and> i \<noteq> j
        \<longrightarrow> Map_get (cache (lru (process_set p [j, w, ttl]))) i = Map_get (cache (lru p)) i"
    unfolding s
    by (auto simp: LRUCache_set_def Let_def Map_has_set Map_has_delete Map_get_set Map_get_delete)
  from a b c e f show ?thesis by blast
qed

theorem entries_never_expire_witness:
  "Map_has [(JStr ''a'', JNum 1), (JStr ''b'', JNum 2)] (JStr ''a'')
   \<and> \<not> Map_has (cache (lru (process_set
        \<lparr>now = 0, lru = \<lparr>maxSize = 2, cache = [(JStr ''a'', JNum 1), (JStr ''b'', JNum 2)]\<rparr>\<rparr>
        [JStr ''c'', JNum 3, JNum 1]))) (JStr ''a'')
   \<and> (2::int) \<le> int (Map_size [(JStr ''a'', JNum 1), (JStr ''b'', JNum 2)])
   \<and> JStr ''a'' = Map_first_key [(JStr ''a'', JNum 1), (JStr ''b'', JNum 2)]
   \<and> Map_has [(JStr ''a'', JNum 1), (JStr ''b'', JNum 2)] (JStr ''b'')
   \<and> Map_has (cache (lru (process_set
        \<lparr>now = 0, lru = \<lparr>maxSize = 2, cache = [(JStr ''a'', JNum 1), (JStr ''b'', JNum 2)]\<rparr>\<rparr>
        [JStr ''c'', JNum 3, JNum 1]))) (JStr ''b'')
   \<and> JStr ''b'' \<noteq> JStr ''c''
   \<and> Map_get (cache (lru (process_set
        \<lparr>now = 0, lru = \<lparr>maxSize = 2, cache = [(JStr ''a'', JNum 1), (JStr ''b'', JNum 2)]\<rparr>\<rparr>
        [JStr ''c'', JNum 3, JNum 1]))) (JStr ''b'') = JNum 2
   \<and> fst (process_get (advance (process_set
        \<lparr>now = 0, lru = \<lparr>maxSize = 2, cache = [(JStr ''a'', JNum 1), (JStr ''b'', JNum 2)]\<rparr>\<rparr>
        [JStr ''c'', JNum 3, JNum 1]) 5) (JStr ''c'')) = JNum 3"
  using entries_never_expire
    [where p = "\<lparr>now = 0, lru = \<lparr>maxSize = 2, cache = [(JStr ''a'', JNum 1), (JStr ''b'', JNum 2)]\<rparr>\<rparr>"
       and k = "JStr ''c''" and v = "JNum 3" and ttl = "JNum 1" and d = 5
       and j = "JStr ''c''" and w = "JNum 3" and k' = "JStr ''a''" and i = "JStr ''b''"]
  by (simp add: process_set_def LRUCache_set_call_def arg_def cache_defs)

section \<open>Round trip\<close>

lemma agrees_iff:
  "agrees h c \<longleftrightarrow> (\<forall>k. Map_has (cache c) k \<longrightarrow> last_set h k = Some (Map_get (cache c) k))"
  by (auto simp: agrees_def Map_has_iff)

lemma last_set_append:
  "last_set (h @ h') k = (case last_set h' k of Some w \<Rightarrow> Some w | None \<Rightarrow> last_set h k)"
  by (induction h k rule: last_set.induct) (auto split: option.splits)

lemma agrees_set: "agrees h c \<Longrightarrow> agrees (h @ [Set k v]) (LRUCache_set c k v)"
  by (auto simp: agrees_iff last_set_append LRUCache_set_def Let_def Map_has_set Map_get_set
      Map_has_delete Map_get_delete)

lemma agrees_get: "agrees h c \<Longrightarrow> agrees (h @ [Get k]) (snd (LRUCache_get c k))"
  by (simp add: agrees_iff last_set_append LRUCache_get_has LRUCache_get_get)

lemma agrees_get_guide: "agrees h c \<Longrightarrow> agrees (h @ [Get k]) (snd (LRUCache_get_guide c k))"
  by (simp add: agrees_iff last_set_append LRUCache_get_guide_has LRUCache_get_guide_get)

lemma agrees_run: "agrees h c \<Longrightarrow> agrees (h @ xs) (run c xs)"
proof (induction xs arbitrary: h c)
  case Nil
  then show ?case by simp
next
  case (Cons x xs)
  have "agrees (h @ [x]) (step c x)"
    using Cons.prems by (cases x) (simp_all add: agrees_set agrees_get)
  then have "agrees ((h @ [x]) @ xs) (run (step c x) xs)"
    by (rule Cons.IH)
  then show ?case by simp
qed

lemma agrees_run_guide: "agrees h c \<Longrightarrow> agrees (h @ xs) (run_guide c xs)"
proof (induction xs arbitrary: h c)
  case Nil
  then show ?case by simp
next
  case (Cons x xs)
  have "agrees (h @ [x]) (step_guide c x)"
    using Cons.prems by (cases x) (simp_all add: agrees_set agrees_get_guide)
  then have "agrees ((h @ [x]) @ xs) (run_guide (step_guide c x) xs)"
    by (rule Cons.IH)
  then show ?case by simp
qed

lemma agrees_new: "agrees [] (LRUCache_new n)"
  by (simp add: agrees_def LRUCache_new_def)

text \<open>
  What the code keeps of the round trip: after any history of \<open>set\<close> and \<open>get\<close> calls on
  a cache constructed with any capacity, a key that is still in the \<open>Map\<close> is returned by
  \<open>get\<close> with the value of the most recent \<open>set\<close> for it.
\<close>

lemma present_key_round_trip:
  "(Map_has (cache (run (LRUCache_new n) h)) k \<longrightarrow>
      last_set h k = Some (fst (LRUCache_get (run (LRUCache_new n) h) k)))
   \<and> (Map_has (cache (run_guide (LRUCache_new n) h)) k \<longrightarrow>
      last_set h k = Some (fst (LRUCache_get_guide (run_guide (LRUCache_new n) h) k)))"
proof -
  have "agrees ([] @ h) (run (LRUCache_new n) h)"
    by (rule agrees_run [OF agrees_new])
  moreover have "agrees ([] @ h) (run_guide (LRUCache_new n) h)"
    by (rule agrees_run_guide [OF agrees_new])
  ultimately show ?thesis
    by (simp add: agrees_iff LRUCache_get_result LRUCache_get_guide_result)
qed

text \<open>
  Where the code does what the specification words: the benchmark's \<open>get\<close>, and \<open>set\<close> of
  a key that is not in the cache. They differ on a \<open>set\<close> of a key that is there.
\<close>

lemma Map_delete_first: "Map_wf m \<Longrightarrow> Map_delete m (Map_first_key m) = drop 1 m"
  by (cases m) (auto simp: Map_first_key_def Map_wf_def Map_delete_absent Map_has_iff)

lemma set_new_key_as_specified:
  assumes "Map_wf (cache c)" and "\<not> Map_has (cache c) k"
  shows "cache (LRUCache_set c k v) = spec_set (maxSize c) (cache c) k v"
proof (cases "maxSize c \<le> int (Map_size (cache c))")
  case True
  have "\<not> Map_has (Map_delete (cache c) (Map_first_key (cache c))) k"
    using assms(2) by (simp add: Map_has_delete)
  then have "Map_set (Map_delete (cache c) (Map_first_key (cache c))) k v
      = drop 1 (cache c) @ [(k, v)]"
    using assms(1) by (simp add: Map_set_last Map_delete_first)
  then show ?thesis
    using True assms(2) by (simp add: LRUCache_set_def Let_def spec_set_def Map_size_def)
next
  case False
  then show ?thesis
    using assms(2) by (simp add: LRUCache_set_def Let_def spec_set_def Map_size_def Map_set_last)
qed

lemma get_as_specified:
  "cache (snd (LRUCache_get c k)) = snd (spec_get (cache c) k)
   \<and> fst (LRUCache_get c k) = (case fst (spec_get (cache c) k) of None \<Rightarrow> JNull | Some v \<Rightarrow> v)"
  by (simp add: LRUCache_get_def spec_get_def Let_def Map_refresh_last)


section \<open>Stored absent values\<close>

text \<open>
  C10, as the specification states it, fails for the guide's \<open>get\<close>: 0 is falsy, yet after
  \<open>set(a, 0)\<close> the call \<open>get(a)\<close> returns 0, and on a key never inserted it returns
  \<open>undefined\<close>.
\<close>

theorem stored_zero_differs_from_miss:
  "\<not> truthy (JNum 0) \<and>
   fst (LRUCache_get_guide (LRUCache_set (LRUCache_new 3) (JStr ''a'') (JNum 0)) (JStr ''a''))
     \<noteq> fst (LRUCache_get_guide (LRUCache_new 3) (JStr ''a''))"
  by (simp add: cache_defs)

text \<open>
  C10, amended. Let \<open>k'\<close> be a key that is not in a cache \<open>c'\<close>. In the benchmark, \<open>get(k)\<close>
  after \<open>set(k, null)\<close> returns what \<open>get(k')\<close> returns on \<open>c'\<close>. In the guide, \<open>get(k)\<close>
  after \<open>set(k, undefined)\<close> returns what \<open>get(k')\<close> returns on \<open>c'\<close>; after \<open>set(k, v)\<close>
  with any falsy \<open>v\<close> it returns \<open>v\<close> itself and leaves the cache as it is, and the result
  of the miss is falsy as well.
\<close>

theorem stored_absent_value:
  assumes "\<not> Map_has (cache c') k'"
  shows "fst (LRUCache_get (LRUCache_set c k JNull) k) = fst (LRUCache_get c' k')
    \<and> fst (LRUCache_get_guide (LRUCache_set c k JUndefined) k) = fst (LRUCache_get_guide c' k')
    \<and> (\<not> truthy v \<longrightarrow>
         LRUCache_get_guide (LRUCache_set c k v) k = (v, LRUCache_set c k v)
         \<and> \<not> truthy (fst (LRUCache_get_guide c' k')))"
  using assms
  by (simp add: LRUCache_get_result LRUCache_set_has LRUCache_set_get LRUCache_get_guide_def
      Let_def Map_get_absent)
    (simp add: LRUCache_get_def)

theorem stored_absent_value_witness:
  "\<not> Map_has (cache (LRUCache_new 3)) (JStr ''b'')
   \<and> \<not> truthy (JStr [])
   \<and> fst (LRUCache_get (LRUCache_set (LRUCache_new 3) (JStr ''a'') JNull) (JStr ''a''))
       = fst (LRUCache_get (LRUCache_new 3) (JStr ''b''))
   \<and> fst (LRUCache_get_guide (LRUCache_set (LRUCache_new 3) (JStr ''a'') JUndefined) (JStr ''a''))
       = fst (LRUCache_get_guide (LRUCache_new 3) (JStr ''b''))
   \<and> LRUCache_get_guide (LRUCache_set (LRUCache_new 3) (JStr ''a'') (JStr [])) (JStr ''a'')
       = (JStr [], LRUCache_set (LRUCache_new 3) (JStr ''a'') (JStr []))"
  using stored_absent_value
    [of "LRUCache_new 3" "JStr ''b''" "LRUCache_new 3" "JStr ''a''" "JStr []"]
  by (simp add: LRUCache_new_def)

end
